theory Spec2Isabelle
  imports Main "HOL-Library.AList"
begin

section \<open>JavaScript values\<close>

text \<open>
  The logging service of \<^verbatim>\<open>src/logging/logging.service.ts\<close> passes values of type
  \<^verbatim>\<open>any\<close> around: metadata bags, request and response bodies, header values. The
  builders only read such values or put them into freshly built object literals, so
  they are modelled as immutable trees. An object is the list of its own enumerable
  string-keyed properties in enumeration order (keys distinct). A string is a list
  of code units, a number is an integer number, \<open>JBigInt\<close> is a \<^verbatim>\<open>bigint\<close>.
  Arrays, functions, symbols, getters and proxies are outside the model.
\<close>

datatype jsval =
    JUndefined
  | JNull
  | JBool bool
  | JNum int
  | JStr string
  | JBigInt int
  | JObj "(string \<times> jsval) list"

datatype error = TypeError

text \<open>\<^verbatim>\<open>if (v)\<close>: the truthiness of a value.\<close>

fun truthy :: "jsval \<Rightarrow> bool" where
  "truthy JUndefined = False"
| "truthy JNull = False"
| "truthy (JBool b) = b"
| "truthy (JNum n) = (n \<noteq> 0)"
| "truthy (JStr s) = (s \<noteq> [])"
| "truthy (JBigInt n) = (n \<noteq> 0)"
| "truthy (JObj ps) = True"

text \<open>
  \<^verbatim>\<open>o[k]\<close> on a map of own properties: the value stored under the key, or
  \<^verbatim>\<open>undefined\<close>.
\<close>

definition get_prop :: "(string \<times> jsval) list \<Rightarrow> string \<Rightarrow> jsval" where
  "get_prop ps k = (case map_of ps k of None \<Rightarrow> JUndefined | Some v \<Rightarrow> v)"

text \<open>
  \<^verbatim>\<open>v?.k\<close>, optional chaining: \<^verbatim>\<open>undefined\<close> when \<open>v\<close> is \<^verbatim>\<open>null\<close> or
  \<^verbatim>\<open>undefined\<close> (where \<^verbatim>\<open>v.k\<close> would raise a TypeError), the property otherwise. A
  primitive is boxed for the read and has no own property under the keys the service
  reads. Keys that the built-in prototypes define (\<^verbatim>\<open>length\<close>, \<^verbatim>\<open>constructor\<close>, ...)
  are outside the model; the service reads none.
\<close>

fun opt_member :: "jsval \<Rightarrow> string \<Rightarrow> jsval" where
  "opt_member (JObj ps) k = get_prop ps k"
| "opt_member v k = JUndefined"

text \<open>
  An object literal \<^verbatim>\<open>{k1: v1, k2: v2, ...}\<close> (spread entries expanded): the
  properties are defined from left to right, a repeated key keeps its first position
  and takes the last value.
\<close>

definition obj_literal :: "(string \<times> jsval) list \<Rightarrow> (string \<times> jsval) list" where
  "obj_literal kvs = fold (\<lambda>(k, v) ps. AList.update k v ps) kvs []"

section \<open>The platform\<close>

text \<open>
  What the service reads from the Node.js runtime is a parameter of the model:
  the wall clock (\<^verbatim>\<open>new Date().toISOString()\<close>), \<^verbatim>\<open>os.hostname()\<close>,
  \<^verbatim>\<open>process.pid\<close>, the successive results of \<^verbatim>\<open>process.memoryUsage()\<close> during one
  call, the elapsed time \<^verbatim>\<open>seconds * 1000 + nanoseconds / 1000000\<close> that
  \<^verbatim>\<open>process.hrtime(startTime)\<close> gives (a floating-point number, kept opaque), and the
  built-in \<^verbatim>\<open>JSON.stringify\<close>: it raises (\<open>Inl\<close>), returns \<^verbatim>\<open>undefined\<close>
  (\<open>Inr None\<close>) or returns a string.
\<close>

record memory_usage =
  rss :: int
  heapTotal :: int
  heapUsed :: int
  external :: int
  arrayBuffers :: int

record platform =
  now_iso :: string
  hostname :: string
  pid :: int
  memoryUsage :: "nat \<Rightarrow> memory_usage"
  hrtime_ms :: "int \<times> int \<Rightarrow> jsval"
  stringify :: "jsval \<Rightarrow> error + string option"

section \<open>Configuration\<close>

text \<open>
  The interfaces \<^verbatim>\<open>LoggerConfig\<close> and \<^verbatim>\<open>RequestLoggingConfig\<close>; an optional field
  that is absent is \<open>None\<close>. \<^verbatim>\<open>maxBodyLength\<close> is a \<^verbatim>\<open>number\<close>, here an integer.
\<close>

record LoggerConfig =
  level :: string
  prettyPrint :: bool
  logDir :: "string option"
  maxFileSize :: "string option"
  maxDays :: "int option"
  console :: bool
  defaultMeta :: "(string \<times> jsval) list option"
  timestampFormat :: string
  correlationId :: bool
  redactedFields :: "string list"
  captureStackTrace :: bool
  includeMetadata :: bool

record RequestLoggingConfig =
  logRequestBody :: bool
  logResponseBody :: bool
  maxBodyLength :: int
  includedHeaders :: "string list"
  excludePaths :: "string list"
  logQueryParams :: bool
  logRouteParams :: bool
  logTiming :: bool

section \<open>Body truncation\<close>

text \<open>
  \<^verbatim>\<open>truncateBody\<close>. \<^verbatim>\<open>stringified.length\<close> raises a TypeError when
  \<^verbatim>\<open>JSON.stringify\<close> returned \<^verbatim>\<open>undefined\<close>; \<^verbatim>\<open>substring(0, n)\<close> takes a
  negative \<open>n\<close> as 0.
\<close>

definition truncateBody :: "platform \<Rightarrow> RequestLoggingConfig \<Rightarrow> jsval \<Rightarrow> error + jsval" where
  "truncateBody pf rc body =
     (case stringify pf body of
        Inl e \<Rightarrow> Inl e
      | Inr None \<Rightarrow> Inl TypeError
      | Inr (Some stringified) \<Rightarrow>
          if int (length stringified) \<le> maxBodyLength rc then Inr body
          else Inr (JObj
            [(''_truncated'', JBool True),
             (''preview'', JStr (take (nat (maxBodyLength rc)) stringified @ ''...''))]))"

section \<open>The log entry builder\<close>

text \<open>
  The \<^verbatim>\<open>LogEntry\<close> interface. An optional slot that is absent holds
  \<^verbatim>\<open>undefined\<close>; the slot \<^verbatim>\<open>context\<close> is the field \<open>context_block\<close>.
\<close>

record LogEntry =
  timestamp :: string
  level :: string
  message :: string
  correlationId :: jsval
  service :: jsval
  error :: jsval
  request :: jsval
  response :: jsval
  user :: jsval
  metadata :: jsval
  context_block :: jsval

text \<open>
  \<^verbatim>\<open>createLogEntry\<close>. The two reads of \<^verbatim>\<open>process.memoryUsage()\<close> are the calls
  number 0 and 1 of the platform.
\<close>

definition createLogEntry :: "platform \<Rightarrow> LoggerConfig \<Rightarrow> string \<Rightarrow> string \<Rightarrow> jsval \<Rightarrow> LogEntry" where
  "createLogEntry pf cfg lvl msg meta =
     \<lparr> timestamp = now_iso pf,
       level = lvl,
       message = msg,
       correlationId = opt_member meta ''correlationId'',
       service = opt_member meta ''service'',
       error = opt_member meta ''error'',
       request = opt_member meta ''request'',
       response = opt_member meta ''response'',
       user = opt_member meta ''user'',
       metadata = opt_member meta ''metadata'',
       context_block =
         (if includeMetadata cfg
          then JObj
            [(''hostname'', JStr (hostname pf)),
             (''pid'', JNum (pid pf)),
             (''memory'', JObj
               [(''heapUsed'', JNum (heapUsed (memoryUsage pf 0))),
                (''heapTotal'', JNum (heapTotal (memoryUsage pf 1)))])]
          else JUndefined) \<rparr>"

text \<open>
  \<^verbatim>\<open>createCustomFormat\<close>, the last stage of the format pipeline, here on the entry
  it receives; \<open>pf\<close> is the platform when the format runs.
\<close>

definition createCustomFormat :: "platform \<Rightarrow> LoggerConfig \<Rightarrow> LogEntry \<Rightarrow> LogEntry" where
  "createCustomFormat pf cfg info =
     (if includeMetadata cfg
      then info\<lparr> context_block := JObj
             [(''hostname'', JStr (hostname pf)),
              (''pid'', JNum (pid pf)),
              (''memory'', JObj
                [(''rss'', JNum (rss (memoryUsage pf 0))),
                 (''heapTotal'', JNum (heapTotal (memoryUsage pf 0))),
                 (''heapUsed'', JNum (heapUsed (memoryUsage pf 0))),
                 (''external'', JNum (external (memoryUsage pf 0))),
                 (''arrayBuffers'', JNum (arrayBuffers (memoryUsage pf 0)))])] \<rparr>
      else info)"

section \<open>The logger facade\<close>

text \<open>
  A leveled method hands one entry to the winston logger: the model returns the list
  of these calls, each with the method's level, the message and the entry.
\<close>

record emission =
  em_level :: string
  em_message :: string
  em_entry :: LogEntry

definition debug :: "platform \<Rightarrow> LoggerConfig \<Rightarrow> string \<Rightarrow> jsval \<Rightarrow> emission list" where
  "debug pf cfg msg meta =
     [\<lparr> em_level = ''debug'', em_message = msg,
        em_entry = createLogEntry pf cfg ''debug'' msg meta \<rparr>]"

definition info :: "platform \<Rightarrow> LoggerConfig \<Rightarrow> string \<Rightarrow> jsval \<Rightarrow> emission list" where
  "info pf cfg msg meta =
     [\<lparr> em_level = ''info'', em_message = msg,
        em_entry = createLogEntry pf cfg ''info'' msg meta \<rparr>]"

definition warn :: "platform \<Rightarrow> LoggerConfig \<Rightarrow> string \<Rightarrow> jsval \<Rightarrow> emission list" where
  "warn pf cfg msg meta =
     [\<lparr> em_level = ''warn'', em_message = msg,
        em_entry = createLogEntry pf cfg ''warn'' msg meta \<rparr>]"

text \<open>
  The \<^verbatim>\<open>Error\<close> argument of \<^verbatim>\<open>error\<close>. Reading \<^verbatim>\<open>error.name\<close> finds own and
  inherited properties, enumerable or not; the spread \<^verbatim>\<open>...(error as any)\<close> copies the
  own enumerable properties only. So an error object is the list of its own properties,
  each with its enumerable flag, and the properties its prototype chain provides (for
  an instance of \<^verbatim>\<open>Error\<close>: \<^verbatim>\<open>name\<close> is inherited, \<^verbatim>\<open>message\<close> and
  \<^verbatim>\<open>stack\<close> are own and not enumerable).
\<close>

record error_object =
  own :: "(string \<times> bool \<times> jsval) list"
  inherited :: "(string \<times> jsval) list"

definition read_prop :: "error_object \<Rightarrow> string \<Rightarrow> jsval" where
  "read_prop e k =
     (case map_of (own e) k of
        Some (enumerable, v) \<Rightarrow> v
      | None \<Rightarrow> get_prop (inherited e) k)"

definition spread_error :: "error_object \<Rightarrow> (string \<times> jsval) list" where
  "spread_error e = map (\<lambda>(k, enumerable, v). (k, v)) (filter (\<lambda>(k, enumerable, v). enumerable) (own e))"

text \<open>Decimal digits of a natural number, for the index keys of a string.\<close>

function decimal :: "nat \<Rightarrow> string" where
  "decimal n =
     (if n < 10 then [''0123456789'' ! n]
      else decimal (n div 10) @ [''0123456789'' ! (n mod 10)])"
  by pat_completeness auto
termination
  by (relation "measure id") auto

declare decimal.simps [simp del]

text \<open>
  The spread \<^verbatim>\<open>...meta\<close> of a value of type \<^verbatim>\<open>any\<close>: the own enumerable properties
  of an object, the indexed characters of a string, nothing for the other values.
\<close>

fun spread :: "jsval \<Rightarrow> (string \<times> jsval) list" where
  "spread (JObj ps) = ps"
| "spread (JStr s) = map (\<lambda>i. (decimal i, JStr [s ! i])) [0..<length s]"
| "spread v = []"

definition normalize_error :: "LoggerConfig \<Rightarrow> error_object \<Rightarrow> jsval" where
  "normalize_error cfg e =
     JObj (obj_literal
       ([(''name'', read_prop e ''name''),
         (''message'', read_prop e ''message''),
         (''stack'', if captureStackTrace cfg then read_prop e ''stack'' else JUndefined)]
        @ spread_error e))"

text \<open>\<^verbatim>\<open>error(message, error?, meta?)\<close>; an absent error argument is \<open>None\<close>.\<close>

definition error :: "platform \<Rightarrow> LoggerConfig \<Rightarrow> string \<Rightarrow> error_object option \<Rightarrow> jsval \<Rightarrow> emission list" where
  "error pf cfg msg err meta =
     [\<lparr> em_level = ''error'', em_message = msg,
        em_entry = createLogEntry pf cfg ''error'' msg
          (JObj (obj_literal
            (spread meta @
             [(''error'', case err of None \<Rightarrow> JUndefined | Some e \<Rightarrow> normalize_error cfg e)]))) \<rparr>]"

section \<open>Request and response capture\<close>

text \<open>
  What \<^verbatim>\<open>logRequest\<close> reads of an Express request, and \<^verbatim>\<open>logResponse\<close> of a
  response: \<open>http_method\<close> is \<^verbatim>\<open>req.method\<close>, \<open>getHeaders\<close> is the result of \<^verbatim>\<open>res.getHeaders()\<close>,
  \<open>bodyContent\<close> is \<^verbatim>\<open>res.locals.bodyContent\<close>.
\<close>

record Request =
  path :: string
  http_method :: string
  url :: string
  headers :: "(string \<times> jsval) list"
  body :: jsval
  params :: jsval
  query :: jsval

record Response =
  statusCode :: int
  getHeaders :: "(string \<times> jsval) list"
  bodyContent :: jsval

text \<open>
  The \<^verbatim>\<open>forEach\<close> over \<^verbatim>\<open>includedHeaders\<close> that fills \<^verbatim>\<open>requestLog.headers\<close>.
\<close>

definition add_configured_headers :: "RequestLoggingConfig \<Rightarrow> Request \<Rightarrow> (string \<times> jsval) list" where
  "add_configured_headers rc req =
     fold (\<lambda>header hs.
             let headerValue = get_prop (headers req) header
             in if truthy headerValue then AList.update header headerValue hs else hs)
          (includedHeaders rc) []"

text \<open>
  \<^verbatim>\<open>logRequest\<close>. A failure of \<^verbatim>\<open>truncateBody\<close> leaves the method before
  \<^verbatim>\<open>this.info\<close> is called; an absent correlation id is \<^verbatim>\<open>undefined\<close>.
\<close>

definition logRequest ::
  "platform \<Rightarrow> LoggerConfig \<Rightarrow> RequestLoggingConfig \<Rightarrow> Request \<Rightarrow> jsval \<Rightarrow> error + emission list" where
  "logRequest pf cfg rc req cid =
     (if path req \<in> set (excludePaths rc) then Inr []
      else
        case (if logRequestBody rc \<and> truthy (body req)
              then truncateBody pf rc (body req) else Inr JUndefined) of
          Inl e \<Rightarrow> Inl e
        | Inr b \<Rightarrow>
            Inr (info pf cfg ''Incoming request''
              (JObj
                [(''request'', JObj
                   [(''method'', JStr (http_method req)),
                    (''url'', JStr (url req)),
                    (''headers'', JObj (add_configured_headers rc req)),
                    (''body'', b),
                    (''params'',
                       if logRouteParams rc \<and> truthy (params req) then params req else JUndefined),
                    (''query'',
                       if logQueryParams rc \<and> truthy (query req) then query req else JUndefined)]),
                 (''correlationId'', cid)])))"

text \<open>
  \<^verbatim>\<open>logResponse\<close>; \<open>startTime\<close> is the optional \<^verbatim>\<open>[seconds, nanoseconds]\<close>
  marker (an array, truthy when supplied).
\<close>

definition logResponse ::
  "platform \<Rightarrow> LoggerConfig \<Rightarrow> RequestLoggingConfig \<Rightarrow> Response \<Rightarrow> (int \<times> int) option \<Rightarrow> jsval
     \<Rightarrow> error + emission list" where
  "logResponse pf cfg rc res startTime cid =
     (case (if logResponseBody rc \<and> truthy (bodyContent res)
            then truncateBody pf rc (bodyContent res) else Inr JUndefined) of
        Inl e \<Rightarrow> Inl e
      | Inr b \<Rightarrow>
          Inr (info pf cfg ''Outgoing response''
            (JObj
              [(''response'', JObj
                 [(''statusCode'', JNum (statusCode res)),
                  (''headers'', JObj (getHeaders res)),
                  (''body'', b),
                  (''timing'',
                     case startTime of
                       Some start \<Rightarrow> if logTiming rc then hrtime_ms pf start else JUndefined
                     | None \<Rightarrow> JUndefined)]),
               (''correlationId'', cid)])))"

section \<open>Transport fan-out\<close>










section \<open>A serializer for the examples\<close>

text \<open>
  \<^verbatim>\<open>JSON.stringify\<close> on the values of the model, after ECMAScript's
  \<^verbatim>\<open>SerializeJSONProperty\<close>: \<^verbatim>\<open>undefined\<close> has no serialization, a
  \<^verbatim>\<open>bigint\<close> raises a TypeError, a property without serialization is left out of
  its object, a string is quoted with \<^verbatim>\<open>"\<close>, \<^verbatim>\<open>\\<close> and the control characters
  escaped. Numbers are integers below \<open>10\<^sup>2\<^sup>1\<close> in magnitude, written in decimal.
  The theorems hold for every platform; the examples run on \<open>node\<close> below.
\<close>

definition hex_digit :: "nat \<Rightarrow> char" where
  "hex_digit n = ''0123456789abcdef'' ! n"

definition escape_char :: "char \<Rightarrow> string" where
  "escape_char c =
     (if c = CHR 0x22 then [CHR 0x5C, CHR 0x22]
      else if c = CHR 0x5C then [CHR 0x5C, CHR 0x5C]
      else if c = CHR 0x08 then [CHR 0x5C, CHR ''b'']
      else if c = CHR 0x09 then [CHR 0x5C, CHR ''t'']
      else if c = CHR 0x0A then [CHR 0x5C, CHR ''n'']
      else if c = CHR 0x0C then [CHR 0x5C, CHR ''f'']
      else if c = CHR 0x0D then [CHR 0x5C, CHR ''r'']
      else if (of_char c :: nat) < 32
      then [CHR 0x5C, CHR ''u'', CHR ''0'', CHR ''0'',
            hex_digit ((of_char c :: nat) div 16), hex_digit ((of_char c :: nat) mod 16)]
      else [c])"

definition quote :: "string \<Rightarrow> string" where
  "quote s = [CHR 0x22] @ concat (map escape_char s) @ [CHR 0x22]"

fun join_comma :: "string list \<Rightarrow> string" where
  "join_comma [] = []"
| "join_comma [x] = x"
| "join_comma (x # y # ys) = x @ '','' @ join_comma (y # ys)"

fun JSON_stringify :: "jsval \<Rightarrow> error + string option"
  and stringify_props :: "(string \<times> jsval) list \<Rightarrow> error + string list" where
  "JSON_stringify JUndefined = Inr None"
| "JSON_stringify JNull = Inr (Some ''null'')"
| "JSON_stringify (JBool b) = Inr (Some (if b then ''true'' else ''false''))"
| "JSON_stringify (JNum n) =
     Inr (Some (if n < 0 then ''-'' @ decimal (nat (- n)) else decimal (nat n)))"
| "JSON_stringify (JStr s) = Inr (Some (quote s))"
| "JSON_stringify (JBigInt n) = Inl TypeError"
| "JSON_stringify (JObj ps) =
     (case stringify_props ps of
        Inl e \<Rightarrow> Inl e
      | Inr parts \<Rightarrow> Inr (Some (''{'' @ join_comma parts @ ''}'')))"
| "stringify_props [] = Inr []"
| "stringify_props ((k, v) # ps) =
     (case JSON_stringify v of
        Inl e \<Rightarrow> Inl e
      | Inr None \<Rightarrow> stringify_props ps
      | Inr (Some s) \<Rightarrow>
          (case stringify_props ps of
             Inl e \<Rightarrow> Inl e
           | Inr parts \<Rightarrow> Inr ((quote k @ '':'' @ s) # parts)))"

definition node :: platform where
  "node =
     \<lparr> now_iso = ''2024-01-01T00:00:00.000Z'',
       hostname = ''localhost'',
       pid = 4242,
       memoryUsage = (\<lambda>n. \<lparr> rss = 50000000, heapTotal = 20000000 + int n,
                                heapUsed = 10000000 + int n, external = 1000000,
                                arrayBuffers = 10000 \<rparr>),
       hrtime_ms = (\<lambda>(seconds, nanoseconds). JNum 12),
       stringify = JSON_stringify \<rparr>"

text \<open>
  The configuration that \<^verbatim>\<open>loadLoggerConfig\<close> and \<^verbatim>\<open>loadRequestLoggingConfig\<close>
  build; the level, the environment and the log directory come from the configuration
  service.
\<close>

definition loadLoggerConfig :: "string \<Rightarrow> bool \<Rightarrow> string option \<Rightarrow> LoggerConfig" where
  "loadLoggerConfig lvl development filepath =
     \<lparr> LoggerConfig.level = lvl,
       prettyPrint = development,
       logDir = filepath,
       maxFileSize = None,
       maxDays = None,
       console = True,
       defaultMeta = None,
       timestampFormat = ''YYYY-MM-DD HH:mm:ss'',
       LoggerConfig.correlationId = True,
       redactedFields = [''password'', ''token'', ''secret'', ''authorization''],
       captureStackTrace = True,
       includeMetadata = True \<rparr>"

definition loadRequestLoggingConfig :: RequestLoggingConfig where
  "loadRequestLoggingConfig =
     \<lparr> logRequestBody = True,
       logResponseBody = True,
       maxBodyLength = 10000,
       includedHeaders = [''user-agent'', ''host'', ''referer''],
       excludePaths = [''/health'', ''/metrics''],
       logQueryParams = True,
       logRouteParams = True,
       logTiming = True \<rparr>"

section \<open>The redaction engine\<close>

text \<open>
  \<^verbatim>\<open>redactSensitiveData\<close> overwrites properties of the objects it is given, and an
  object can be reached along several paths or along a cycle. So here the objects live
  in a store: an object is an address, the store holds at each address the list of the
  object's enumerable properties in enumeration order, and a property value is a
  primitive or a reference. An array is an object whose keys are its indices.
\<close>

type_synonym addr = nat

datatype val = VUndefined | VNull | VBool bool | VNum int | VStr string | VRef addr

type_synonym object = "(string \<times> val) list"

type_synonym store = "object list"

fun typeof :: "val \<Rightarrow> string" where
  "typeof VUndefined = ''undefined''"
| "typeof VNull = ''object''"
| "typeof (VBool b) = ''boolean''"
| "typeof (VNum n) = ''number''"
| "typeof (VStr s) = ''string''"
| "typeof (VRef a) = ''object''"

fun val_truthy :: "val \<Rightarrow> bool" where
  "val_truthy VUndefined = False"
| "val_truthy VNull = False"
| "val_truthy (VBool b) = b"
| "val_truthy (VNum n) = (n \<noteq> 0)"
| "val_truthy (VStr s) = (s \<noteq> [])"
| "val_truthy (VRef a) = True"

text \<open>
  \<^verbatim>\<open>toLowerCase\<close> on the letters A to Z (code units 65 to 90), which become a to z
  by setting the bit of weight 32; the other code units below 128 are unchanged, as in
  JavaScript. Letters outside ASCII are outside the model.
\<close>

definition lower_char :: "char \<Rightarrow> char" where
  "lower_char c =
     (if 65 \<le> (of_char c :: nat) \<and> (of_char c :: nat) \<le> 90
      then (case c of Char b0 b1 b2 b3 b4 b5 b6 b7 \<Rightarrow> Char b0 b1 b2 b3 b4 True b6 b7)
      else c)"

definition toLowerCase :: "string \<Rightarrow> string" where
  "toLowerCase s = map lower_char s"

text \<open>
  The keys that \<^verbatim>\<open>for (const key in obj)\<close> enumerates, the read \<^verbatim>\<open>obj[key]\<close> and
  the write \<^verbatim>\<open>obj[key] = v\<close>. An address outside the store has no properties.
\<close>

definition keys :: "store \<Rightarrow> addr \<Rightarrow> string list" where
  "keys st a = (if a < length st then map fst (st ! a) else [])"

definition load :: "store \<Rightarrow> addr \<Rightarrow> string \<Rightarrow> val" where
  "load st a key =
     (if a < length st
      then (case map_of (st ! a) key of None \<Rightarrow> VUndefined | Some v \<Rightarrow> v)
      else VUndefined)"

definition assign :: "store \<Rightarrow> addr \<Rightarrow> string \<Rightarrow> val \<Rightarrow> store" where
  "assign st a key v = (if a < length st then st[a := AList.update key v (st ! a)] else st)"

text \<open>
  \<^verbatim>\<open>redactSensitiveData(obj, fields, depth)\<close>, returning the store it leaves; \<open>names\<close>
  is the parameter \<^verbatim>\<open>fields\<close>. The loop
  enumerates the keys the object has when the loop starts (the function adds and
  removes none) and reads each value when it comes to its key.
\<close>

function redactSensitiveData :: "val \<Rightarrow> string list \<Rightarrow> nat \<Rightarrow> store \<Rightarrow> store" where
  "redactSensitiveData obj names depth st =
     (if depth > 10 \<or> \<not> val_truthy obj \<or> typeof obj \<noteq> ''object'' then st
      else case obj of
        VRef a \<Rightarrow>
          fold (\<lambda>key st'.
                 if toLowerCase key \<in> set names
                 then assign st' a key (VStr ''[REDACTED]'')
                 else if typeof (load st' a key) = ''object''
                 then redactSensitiveData (load st' a key) names (depth + 1) st'
                 else st')
               (keys st a) st
      | _ \<Rightarrow> st)"
  by pat_completeness auto
termination
  by (relation "measure (\<lambda>(obj, names, depth, st). 11 - depth)") auto

declare redactSensitiveData.simps [simp del]

text \<open>\<^verbatim>\<open>createRedactionFormat\<close> calls it on the entry with the default depth 0.\<close>

definition createRedactionFormat :: "LoggerConfig \<Rightarrow> val \<Rightarrow> store \<Rightarrow> store" where
  "createRedactionFormat cfg entry st = redactSensitiveData entry (redactedFields cfg) 0 st"

subsection \<open>Notions for the statements\<close>

text \<open>
  A key matches a redacted field name case-insensitively when both have the same
  lower-case form.
\<close>

definition matches_ci :: "string list \<Rightarrow> string \<Rightarrow> bool" where
  "matches_ci names key = (toLowerCase key \<in> toLowerCase ` set names)"



text \<open>
  The objects that the engine enters: \<open>kids\<close> are the objects that the given keys
  of \<open>a\<close> refer to, leaving out the keys whose lower-case form is a redacted field;
  \<open>at_depth names st d r\<close> are the objects \<open>d\<close> such steps below \<open>r\<close>, and
  \<open>visited names st n r\<close> those fewer than \<open>n\<close> steps below \<open>r\<close>.
\<close>

definition kids :: "string list \<Rightarrow> store \<Rightarrow> addr \<Rightarrow> string list \<Rightarrow> addr list" where
  "kids names st a ks =
     concat (map (\<lambda>key. if toLowerCase key \<in> set names then []
                          else (case load st a key of VRef b \<Rightarrow> [b] | _ \<Rightarrow> [])) ks)"

definition children :: "string list \<Rightarrow> store \<Rightarrow> addr \<Rightarrow> addr list" where
  "children names st a = kids names st a (keys st a)"


fun visited :: "string list \<Rightarrow> store \<Rightarrow> nat \<Rightarrow> addr \<Rightarrow> addr set" where
  "visited names st 0 a = {}"
| "visited names st (Suc n) a =
     insert a (\<Union>b \<in> set (children names st a). visited names st n b)"

text \<open>
  \<open>redacted names X st st'\<close>: the store \<open>st'\<close> is \<open>st\<close> with \<^verbatim>\<open>[REDACTED]\<close> written
  to the properties of \<open>X\<close> that exist and whose lower-case key is a redacted field, and
  nothing else changed.
\<close>

definition redacted :: "string list \<Rightarrow> (addr \<times> string) set \<Rightarrow> store \<Rightarrow> store \<Rightarrow> bool" where
  "redacted names X st st' \<longleftrightarrow>
     length st' = length st \<and> (\<forall>a. keys st' a = keys st a) \<and>
     (\<forall>a k. load st' a k =
        (if (a, k) \<in> X \<and> k \<in> set (keys st a) \<and> toLowerCase k \<in> set names
         then VStr ''[REDACTED]'' else load st a k))"

section \<open>Sample inputs\<close>

text \<open>
  Inputs for the examples: a request with an empty \<^verbatim>\<open>referer\<close> header, a response,
  a plain object of the shape of the \<^verbatim>\<open>Error\<close> interface (\<^verbatim>\<open>stack\<close> is optional
  there), and an instance of \<^verbatim>\<open>Error\<close> as thrown, with an enumerable \<^verbatim>\<open>code\<close>.
\<close>

definition sample_request :: "string \<Rightarrow> jsval \<Rightarrow> Request" where
  "sample_request p b =
     \<lparr> path = p, http_method = ''POST'', url = p,
       headers = [(''host'', JStr ''api.example.com''), (''referer'', JStr []),
                  (''cookie'', JStr ''sid=1'')],
       body = b, params = JObj [], query = JObj [] \<rparr>"

definition sample_response :: "jsval \<Rightarrow> Response" where
  "sample_response b =
     \<lparr> statusCode = 200,
       getHeaders = [(''content-type'', JStr ''application/json''), (''set-cookie'', JStr ''sid=1'')],
       bodyContent = b \<rparr>"

definition plain_error :: error_object where
  "plain_error =
     \<lparr> own = [(''name'', True, JStr ''ValidationError''), (''message'', True, JStr ''bad input'')],
       inherited = [] \<rparr>"

definition thrown_error :: error_object where
  "thrown_error =
     \<lparr> own = [(''stack'', False, JStr ''Error: boom at main.ts:1''), (''message'', False, JStr ''boom''),
              (''code'', True, JStr ''E_BOOM'')],
       inherited = [(''name'', JStr ''Error'')] \<rparr>"

text \<open>
  Stores for the examples: the scenario of the specification with one more object
  under a redacted key; a chain of twelve nested objects; an object that refers to
  itself.
\<close>

definition scenario_store :: store where
  "scenario_store =
     [[(''user'', VRef 1), (''Token'', VRef 2)],
      [(''name'', VStr ''a''), (''password'', VStr ''secret'')],
      [(''password'', VStr ''inner'')]]"



section \<open>Properties of body truncation\<close>

text \<open>
  Claim C2. For every body that \<^verbatim>\<open>JSON.stringify\<close> serializes to a string \<open>s\<close>:
  when the length of \<open>s\<close> is at most \<^verbatim>\<open>maxBodyLength\<close>, \<^verbatim>\<open>truncateBody\<close> returns
  the body itself; when it is longer, the result is the object with
  \<^verbatim>\<open>_truncated: true\<close> and a \<^verbatim>\<open>preview\<close> made of the first \<^verbatim>\<open>maxBodyLength\<close>
  characters of \<open>s\<close> and \<^verbatim>\<open>...\<close>, whose length is \<^verbatim>\<open>maxBodyLength + 3\<close> (the
  maximum being a length, that is, not negative).
\<close>

theorem truncateBody_identity_or_preview:
  assumes "stringify pf b = Inr (Some s)"
  shows "(int (length s) \<le> maxBodyLength rc \<longrightarrow> truncateBody pf rc b = Inr b) \<and>
         (maxBodyLength rc < int (length s) \<longrightarrow>
            truncateBody pf rc b =
              Inr (JObj [(''_truncated'', JBool True),
                         (''preview'', JStr (take (nat (maxBodyLength rc)) s @ ''...''))]) \<and>
            (0 \<le> maxBodyLength rc \<longrightarrow>
               int (length (take (nat (maxBodyLength rc)) s @ ''...'')) = maxBodyLength rc + 3))"
  using assms by (auto simp: truncateBody_def)

text \<open>
  The scenario of the specification: a body whose serialization has 20 characters,
  with a maximum of 10 and with a maximum of 20.
\<close>

theorem truncateBody_identity_or_preview_witness:
  "stringify node (JStr ''abcdefghijklmnopqr'') =
     Inr (Some (CHR 0x22 # ''abcdefghijklmnopqr'' @ [CHR 0x22])) \<and>
   length (CHR 0x22 # ''abcdefghijklmnopqr'' @ [CHR 0x22]) = 20 \<and>
   truncateBody node (loadRequestLoggingConfig\<lparr>maxBodyLength := 10\<rparr>) (JStr ''abcdefghijklmnopqr'') =
     Inr (JObj [(''_truncated'', JBool True), (''preview'', JStr (CHR 0x22 # ''abcdefghi...''))]) \<and>
   length (CHR 0x22 # ''abcdefghi...'') = 13 \<and>
   truncateBody node (loadRequestLoggingConfig\<lparr>maxBodyLength := 20\<rparr>) (JStr ''abcdefghijklmnopqr'') =
     Inr (JStr ''abcdefghijklmnopqr'')"
proof -
  have s: "stringify node (JStr ''abcdefghijklmnopqr'') =
             Inr (Some (CHR 0x22 # ''abcdefghijklmnopqr'' @ [CHR 0x22]))"
    by (simp add: node_def quote_def escape_char_def)
  have long: "truncateBody node (loadRequestLoggingConfig\<lparr>maxBodyLength := 10\<rparr>)
                (JStr ''abcdefghijklmnopqr'') =
     Inr (JObj [(''_truncated'', JBool True), (''preview'', JStr (CHR 0x22 # ''abcdefghi...''))])"
    using truncateBody_identity_or_preview[OF s, of "loadRequestLoggingConfig\<lparr>maxBodyLength := 10\<rparr>"]
    by simp
  have short: "truncateBody node (loadRequestLoggingConfig\<lparr>maxBodyLength := 20\<rparr>)
                 (JStr ''abcdefghijklmnopqr'') =
     Inr (JStr ''abcdefghijklmnopqr'')"
    using truncateBody_identity_or_preview[OF s, of "loadRequestLoggingConfig\<lparr>maxBodyLength := 20\<rparr>"]
    by simp
  show ?thesis using s long short by simp
qed

section \<open>Properties of the log entry builder\<close>

text \<open>
  Claim C8. For every level, message and metadata bag, the entry that
  \<^verbatim>\<open>createLogEntry\<close> builds has a context block, made of the host name, the
  process id and the heap figures read while the entry is built, exactly when
  \<^verbatim>\<open>includeMetadata\<close> is enabled, and no context otherwise; the format stage
  \<^verbatim>\<open>createCustomFormat\<close> keeps it so.
\<close>

theorem context_iff_includeMetadata:
  "context_block (createLogEntry pf cfg lvl msg meta) =
     (if includeMetadata cfg
      then JObj [(''hostname'', JStr (hostname pf)), (''pid'', JNum (pid pf)),
                 (''memory'', JObj [(''heapUsed'', JNum (heapUsed (memoryUsage pf 0))),
                                    (''heapTotal'', JNum (heapTotal (memoryUsage pf 1)))])]
      else JUndefined) \<and>
   (context_block (createLogEntry pf cfg lvl msg meta) \<noteq> JUndefined) = includeMetadata cfg \<and>
   (context_block (createCustomFormat pf' cfg (createLogEntry pf cfg lvl msg meta)) \<noteq> JUndefined)
      = includeMetadata cfg"
  by (simp add: createLogEntry_def createCustomFormat_def)

subsection \<open>Object literals and spreads\<close>

lemma decimal_digits: "set (decimal n) \<subseteq> set ''0123456789''"
proof (induction n rule: decimal.induct)
  case (1 n)
  have nth: "''0123456789'' ! m \<in> set ''0123456789''" if "m < 10" for m
    using that by (intro nth_mem) simp
  show ?case
  proof (cases "n < 10")
    case True
    then show ?thesis using nth[of n] by (subst decimal.simps) simp
  next
    case False
    then show ?thesis
      using 1 nth[of "n mod 10"] by (subst decimal.simps) simp
  qed
qed

lemma map_of_obj_literal_aux:
  "map_of (fold (\<lambda>(k, v) ps. AList.update k v ps) kvs acc) k =
     (case map_of (rev kvs) k of Some v \<Rightarrow> Some v | None \<Rightarrow> map_of acc k)"
proof (induction kvs arbitrary: acc)
  case Nil
  then show ?case by simp
next
  case (Cons kv kvs)
  obtain k' v' where kv: "kv = (k', v')" by (cases kv)
  show ?case
    by (simp add: kv Cons.IH update_conv' map_add_def split: option.splits)
qed

lemma get_prop_obj_literal: "get_prop (obj_literal kvs) k = get_prop (rev kvs) k"
  by (simp add: get_prop_def obj_literal_def map_of_obj_literal_aux split: option.splits)

lemma get_prop_append:
  "get_prop (xs @ ys) k = (case map_of xs k of Some v \<Rightarrow> v | None \<Rightarrow> get_prop ys k)"
  by (simp add: get_prop_def map_add_def split: option.splits)

lemma map_of_spread_string:
  assumes "\<not> set k \<subseteq> set ''0123456789''"
  shows "map_of (rev (map (\<lambda>i. (decimal i, JStr [s ! i])) [0..<length s])) k = None"
proof -
  have "k \<notin> decimal ` set [0..<length s]"
    using assms decimal_digits by blast
  then show ?thesis
    by (simp add: map_of_eq_None_iff image_image)
qed

lemma map_of_spread_primitive:
  assumes "\<forall>ps. meta \<noteq> JObj ps" and "\<not> set k \<subseteq> set ''0123456789''"
  shows "map_of (rev (spread meta)) k = None"
  using assms map_of_spread_string[OF assms(2)] by (cases meta) simp_all

lemma get_prop_error_meta:
  assumes "\<forall>ps. meta \<noteq> JObj ps" and "\<not> set k \<subseteq> set ''0123456789''"
  shows "get_prop (obj_literal (spread meta @ [(''error'', X)])) k =
           (if k = ''error'' then X else JUndefined)"
proof -
  have "get_prop (rev (spread meta @ [(''error'', X)])) k = (if k = ''error'' then X else JUndefined)"
    using map_of_spread_primitive[OF assms] by (simp add: get_prop_def)
  then show ?thesis by (simp only: get_prop_obj_literal)
qed

lemma error_slot_of_error:
  "LogEntry.error (createLogEntry pf cfg lvl msg (JObj (obj_literal (kvs @ [(''error'', X)])))) = X"
  by (simp add: createLogEntry_def get_prop_obj_literal) (simp add: get_prop_def)

subsection \<open>Metadata that is not an object\<close>

text \<open>
  Claim C7. When the metadata argument of a leveled call is absent, \<^verbatim>\<open>null\<close> or a
  primitive, the call builds its entry and hands it over as for an absent argument,
  nothing is raised: the slots \<^verbatim>\<open>correlationId\<close>, \<^verbatim>\<open>service\<close>, \<^verbatim>\<open>error\<close>,
  \<^verbatim>\<open>request\<close>, \<^verbatim>\<open>response\<close>, \<^verbatim>\<open>user\<close> and \<^verbatim>\<open>metadata\<close> of the entry are
  \<^verbatim>\<open>undefined\<close>. In \<^verbatim>\<open>error\<close> the slot \<^verbatim>\<open>error\<close> comes from the error argument and
  not from the metadata; it is \<^verbatim>\<open>undefined\<close> when that argument is absent too.
\<close>

theorem non_object_metadata_omitted:
  assumes "\<forall>ps. meta \<noteq> JObj ps"
  shows "createLogEntry pf cfg lvl msg meta = createLogEntry pf cfg lvl msg JUndefined \<and>
         correlationId (createLogEntry pf cfg lvl msg meta) = JUndefined \<and>
         service (createLogEntry pf cfg lvl msg meta) = JUndefined \<and>
         LogEntry.error (createLogEntry pf cfg lvl msg meta) = JUndefined \<and>
         request (createLogEntry pf cfg lvl msg meta) = JUndefined \<and>
         response (createLogEntry pf cfg lvl msg meta) = JUndefined \<and>
         user (createLogEntry pf cfg lvl msg meta) = JUndefined \<and>
         metadata (createLogEntry pf cfg lvl msg meta) = JUndefined \<and>
         debug pf cfg msg meta = debug pf cfg msg JUndefined \<and>
         info pf cfg msg meta = info pf cfg msg JUndefined \<and>
         warn pf cfg msg meta = warn pf cfg msg JUndefined \<and>
         error pf cfg msg err meta = error pf cfg msg err JUndefined \<and>
         error pf cfg msg None meta =
           [\<lparr>em_level = ''error'', em_message = msg,
             em_entry = createLogEntry pf cfg ''error'' msg JUndefined\<rparr>]"
proof -
  have om: "opt_member meta k = JUndefined" for k
    using assms by (cases meta) simp_all
  have entry: "createLogEntry pf cfg l msg meta = createLogEntry pf cfg l msg JUndefined" for l
    by (simp add: createLogEntry_def om)
  have err: "createLogEntry pf cfg ''error'' msg (JObj (obj_literal (spread meta @ [(''error'', X)]))) =
             createLogEntry pf cfg ''error'' msg (JObj (obj_literal (spread JUndefined @ [(''error'', X)])))" for X
    using assms
    by (simp add: createLogEntry_def get_prop_error_meta del: spread.simps)
  have none: "createLogEntry pf cfg ''error'' msg (JObj (obj_literal (spread JUndefined @ [(''error'', JUndefined)]))) =
              createLogEntry pf cfg ''error'' msg JUndefined"
    by (simp add: createLogEntry_def get_prop_error_meta del: spread.simps)
  show ?thesis
    using entry err none
    by (simp add: debug_def info_def warn_def error_def om createLogEntry_def)
qed

text \<open>A string, \<^verbatim>\<open>null\<close> and a number as metadata.\<close>

theorem non_object_metadata_omitted_witness:
  "(\<forall>ps. JStr ''request-17'' \<noteq> JObj ps) \<and>
   info node ((loadLoggerConfig ''info'' False None)\<lparr>includeMetadata := False\<rparr>) ''started'' (JStr ''request-17'') =
     [\<lparr>em_level = ''info'', em_message = ''started'',
       em_entry = \<lparr>timestamp = ''2024-01-01T00:00:00.000Z'', level = ''info'', message = ''started'',
                   correlationId = JUndefined, service = JUndefined, error = JUndefined,
                   request = JUndefined, response = JUndefined, user = JUndefined,
                   metadata = JUndefined, context_block = JUndefined\<rparr>\<rparr>] \<and>
   warn node ((loadLoggerConfig ''info'' False None)\<lparr>includeMetadata := False\<rparr>) ''slow'' JNull =
     warn node ((loadLoggerConfig ''info'' False None)\<lparr>includeMetadata := False\<rparr>) ''slow'' JUndefined \<and>
   map (\<lambda>em. (correlationId (em_entry em), LogEntry.error (em_entry em)))
     (error node (loadLoggerConfig ''info'' False None) ''failed'' None (JNum 5)) =
     [(JUndefined, JUndefined)]"
proof -
  let ?cfg = "(loadLoggerConfig ''info'' False None)\<lparr>includeMetadata := False\<rparr>"
  have 1: "\<forall>ps. JStr ''request-17'' \<noteq> JObj ps" and 2: "\<forall>ps. JNull \<noteq> JObj ps"
    and 3: "\<forall>ps. JNum 5 \<noteq> JObj ps"
    by simp_all
  have a: "info node ?cfg ''started'' (JStr ''request-17'') = info node ?cfg ''started'' JUndefined"
    using non_object_metadata_omitted[OF 1] by blast
  have b: "warn node ?cfg ''slow'' JNull = warn node ?cfg ''slow'' JUndefined"
    using non_object_metadata_omitted[OF 2] by blast
  have c: "error node (loadLoggerConfig ''info'' False None) ''failed'' None (JNum 5) =
           [\<lparr>em_level = ''error'', em_message = ''failed'',
             em_entry = createLogEntry node (loadLoggerConfig ''info'' False None) ''error'' ''failed'' JUndefined\<rparr>]"
    using non_object_metadata_omitted[OF 3] by blast
  show ?thesis
    unfolding a b c
    by (simp add: info_def createLogEntry_def loadLoggerConfig_def node_def)
qed

subsection \<open>The error block\<close>

lemma map_of_rev_spread_error:
  assumes "distinct (map fst (own e))" and "map_of (rev (spread_error e)) k = Some v"
  shows "read_prop e k = v"
proof -
  have "(k, v) \<in> set (spread_error e)"
    using map_of_SomeD[OF assms(2)] by simp
  then have "(k, True, v) \<in> set (own e)"
    by (auto simp: spread_error_def)
  then have "map_of (own e) k = Some (True, v)"
    using assms(1) by simp
  then show ?thesis by (simp add: read_prop_def)
qed

lemma normalize_error_prop:
  assumes "distinct (map fst (own e))"
  shows "opt_member (normalize_error cfg e) ''name'' = read_prop e ''name''"
    and "opt_member (normalize_error cfg e) ''message'' = read_prop e ''message''"
    and "captureStackTrace cfg \<Longrightarrow> opt_member (normalize_error cfg e) ''stack'' = read_prop e ''stack''"
    and "\<not> captureStackTrace cfg \<Longrightarrow> ''stack'' \<notin> fst ` set (spread_error e) \<Longrightarrow>
           opt_member (normalize_error cfg e) ''stack'' = JUndefined"
proof -
  have lit: "opt_member (normalize_error cfg e) k =
      (case map_of (rev (spread_error e)) k of
         Some v \<Rightarrow> v
       | None \<Rightarrow> get_prop (rev [(''name'', read_prop e ''name''),
                                  (''message'', read_prop e ''message''),
                                  (''stack'', if captureStackTrace cfg then read_prop e ''stack''
                                              else JUndefined)]) k)" for k
    unfolding normalize_error_def opt_member.simps get_prop_obj_literal rev_append get_prop_append
    by (rule refl)
  note sp = map_of_rev_spread_error[OF assms]
  show "opt_member (normalize_error cfg e) ''name'' = read_prop e ''name''"
    using sp[of "''name''"] by (simp add: lit get_prop_def split: option.splits)
  show "opt_member (normalize_error cfg e) ''message'' = read_prop e ''message''"
    using sp[of "''message''"] by (simp add: lit get_prop_def split: option.splits)
  show "opt_member (normalize_error cfg e) ''stack'' = read_prop e ''stack''" if "captureStackTrace cfg"
    using sp[of "''stack''"] that by (simp add: lit get_prop_def split: option.splits)
  show "opt_member (normalize_error cfg e) ''stack'' = JUndefined"
    if "\<not> captureStackTrace cfg" "''stack'' \<notin> fst ` set (spread_error e)"
  proof -
    have "map_of (rev (spread_error e)) ''stack'' = None"
      using that(2) by (simp add: map_of_eq_None_iff)
    then show ?thesis using that(1) by (simp add: lit get_prop_def)
  qed
qed

text \<open>
  Claim C4, as stated, fails: \<^verbatim>\<open>stack\<close> is optional in the \<^verbatim>\<open>Error\<close> interface, and
  for an error object without one the block has no stack although
  \<^verbatim>\<open>captureStackTrace\<close> is enabled.
\<close>

theorem error_stack_counterexample:
  "captureStackTrace (loadLoggerConfig ''info'' False None) \<and>
   error node (loadLoggerConfig ''info'' False None) ''failed'' (Some plain_error) JUndefined =
     [\<lparr>em_level = ''error'', em_message = ''failed'',
       em_entry =
         \<lparr>timestamp = ''2024-01-01T00:00:00.000Z'', level = ''error'', message = ''failed'',
          correlationId = JUndefined, service = JUndefined,
          error = JObj [(''name'', JStr ''ValidationError''), (''message'', JStr ''bad input''),
                        (''stack'', JUndefined)],
          request = JUndefined, response = JUndefined, user = JUndefined, metadata = JUndefined,
          context_block = JObj [(''hostname'', JStr ''localhost''), (''pid'', JNum 4242),
                                (''memory'', JObj [(''heapUsed'', JNum 10000000),
                                                   (''heapTotal'', JNum 20000001)])]\<rparr>\<rparr>]"
  by (simp add: error_def createLogEntry_def loadLoggerConfig_def plain_error_def node_def
        normalize_error_def obj_literal_def spread_error_def read_prop_def get_prop_def)

text \<open>
  Claim C4, amended. For every call \<^verbatim>\<open>error(message, err, meta)\<close> with an error
  object (its own keys distinct), the one entry handed over has an error block whose
  \<^verbatim>\<open>name\<close> and \<^verbatim>\<open>message\<close> are \<^verbatim>\<open>err.name\<close> and \<^verbatim>\<open>err.message\<close>. When
  \<^verbatim>\<open>captureStackTrace\<close> is enabled its \<^verbatim>\<open>stack\<close> is \<^verbatim>\<open>err.stack\<close>, present exactly
  when the error object has one; when it is disabled and \<^verbatim>\<open>stack\<close> is not an own
  enumerable property of the error object, the block's \<^verbatim>\<open>stack\<close> is \<^verbatim>\<open>undefined\<close>.
\<close>

theorem error_block_name_message_stack:
  assumes "distinct (map fst (own e))"
  shows "\<exists>entry. error pf cfg msg (Some e) meta =
             [\<lparr>em_level = ''error'', em_message = msg, em_entry = entry\<rparr>] \<and>
           opt_member (LogEntry.error entry) ''name'' = read_prop e ''name'' \<and>
           opt_member (LogEntry.error entry) ''message'' = read_prop e ''message'' \<and>
           (captureStackTrace cfg \<longrightarrow>
              opt_member (LogEntry.error entry) ''stack'' = read_prop e ''stack'') \<and>
           (\<not> captureStackTrace cfg \<and> ''stack'' \<notin> fst ` set (spread_error e) \<longrightarrow>
              opt_member (LogEntry.error entry) ''stack'' = JUndefined)"
  using normalize_error_prop[OF assms, of cfg]
  by (simp add: error_def error_slot_of_error)

text \<open>An error as thrown, logged with stack capture enabled and disabled.\<close>

theorem error_block_name_message_stack_witness:
  "distinct (map fst (own thrown_error)) \<and>
   map (\<lambda>em. LogEntry.error (em_entry em))
       (error node (loadLoggerConfig ''info'' False None) ''failed'' (Some thrown_error) JUndefined)
     = [JObj [(''name'', JStr ''Error''), (''message'', JStr ''boom''),
              (''stack'', JStr ''Error: boom at main.ts:1''), (''code'', JStr ''E_BOOM'')]] \<and>
   map (\<lambda>em. LogEntry.error (em_entry em))
       (error node ((loadLoggerConfig ''info'' False None)\<lparr>captureStackTrace := False\<rparr>) ''failed''
          (Some thrown_error) JUndefined)
     = [JObj [(''name'', JStr ''Error''), (''message'', JStr ''boom''),
              (''stack'', JUndefined), (''code'', JStr ''E_BOOM'')]]"
proof -
  have d: "distinct (map fst (own thrown_error))"
    by (simp add: thrown_error_def)
  note t = error_block_name_message_stack[OF d]
  have "\<exists>entry. error node (loadLoggerConfig ''info'' False None) ''failed'' (Some thrown_error) JUndefined =
             [\<lparr>em_level = ''error'', em_message = ''failed'', em_entry = entry\<rparr>]"
    using t[of node "loadLoggerConfig ''info'' False None" "''failed''" JUndefined] by blast
  then show ?thesis
    using d
    by (simp add: error_def createLogEntry_def loadLoggerConfig_def thrown_error_def
        normalize_error_def obj_literal_def spread_error_def read_prop_def get_prop_def)
qed

section \<open>Properties of request and response capture\<close>

lemma info_entry:
  "\<exists>entry. info pf cfg msg meta = [\<lparr>em_level = ''info'', em_message = msg, em_entry = entry\<rparr>] \<and>
      level entry = ''info'' \<and> message entry = msg \<and>
      request entry = opt_member meta ''request'' \<and> response entry = opt_member meta ''response''"
  by (simp add: info_def createLogEntry_def)

lemma truncateBody_cases:
  "(\<exists>s. stringify pf b = Inr (Some s)) \<Longrightarrow> \<exists>v. truncateBody pf rc b = Inr v"
  "(\<forall>s. stringify pf b \<noteq> Inr (Some s)) \<Longrightarrow> \<exists>e. truncateBody pf rc b = Inl e"
  by (auto simp: truncateBody_def split: sum.splits option.splits)

lemma truncateBody_excludePaths:
  "truncateBody pf (rc\<lparr>excludePaths := xs\<rparr>) b = truncateBody pf rc b"
  by (simp add: truncateBody_def split: sum.splits option.splits)

subsection \<open>Excluded paths\<close>

text \<open>
  Claim C3, as stated, fails: a request whose path is not excluded and whose body
  \<^verbatim>\<open>JSON.stringify\<close> cannot serialize (here an object holding a \<^verbatim>\<open>bigint\<close>) makes
  \<^verbatim>\<open>logRequest\<close> raise, and no entry is produced.
\<close>

theorem logRequest_one_entry_counterexample:
  "path (sample_request ''/orders'' (JObj [(''amount'', JBigInt 10)])) \<notin>
     set (excludePaths loadRequestLoggingConfig) \<and>
   logRequest node (loadLoggerConfig ''info'' False None) loadRequestLoggingConfig
     (sample_request ''/orders'' (JObj [(''amount'', JBigInt 10)])) JUndefined = Inl TypeError"
  by (simp add: logRequest_def sample_request_def loadRequestLoggingConfig_def truncateBody_def node_def)

text \<open>
  Claim C3, amended. When the path of the request is equal to an entry of
  \<^verbatim>\<open>excludePaths\<close> (equality of strings: case-sensitive, no prefix match),
  \<^verbatim>\<open>logRequest\<close> hands over no entry and raises nothing. When the path is not in the
  list and the body is not logged, is absent or has a serialization,
  \<^verbatim>\<open>logRequest\<close> hands over exactly one entry, at level \<^verbatim>\<open>info\<close> with the message
  \<^verbatim>\<open>Incoming request\<close>. When the path is not in the list and a body that is to be
  logged has no serialization, the call raises and hands over nothing.
\<close>

theorem logRequest_excluded_or_one_entry:
  "(path req \<in> set (excludePaths rc) \<longrightarrow> logRequest pf cfg rc req cid = Inr []) \<and>
   (path req \<notin> set (excludePaths rc) \<and>
    (\<not> logRequestBody rc \<or> \<not> truthy (body req) \<or> (\<exists>s. stringify pf (body req) = Inr (Some s))) \<longrightarrow>
      (\<exists>entry. logRequest pf cfg rc req cid =
                 Inr [\<lparr>em_level = ''info'', em_message = ''Incoming request'', em_entry = entry\<rparr>] \<and>
               level entry = ''info'' \<and> message entry = ''Incoming request'')) \<and>
   (path req \<notin> set (excludePaths rc) \<and> logRequestBody rc \<and> truthy (body req) \<and>
    (\<forall>s. stringify pf (body req) \<noteq> Inr (Some s)) \<longrightarrow>
      (\<exists>e. logRequest pf cfg rc req cid = Inl e))"
proof (intro conjI impI)
  assume "path req \<in> set (excludePaths rc)"
  then show "logRequest pf cfg rc req cid = Inr []" by (simp add: logRequest_def)
next
  assume a: "path req \<notin> set (excludePaths rc) \<and>
    (\<not> logRequestBody rc \<or> \<not> truthy (body req) \<or> (\<exists>s. stringify pf (body req) = Inr (Some s)))"
  then obtain v where v: "(if logRequestBody rc \<and> truthy (body req)
              then truncateBody pf rc (body req) else Inr JUndefined) = Inr v"
    using truncateBody_cases(1)[of pf "body req" rc] by (cases "logRequestBody rc \<and> truthy (body req)") auto
  show "\<exists>entry. logRequest pf cfg rc req cid =
                 Inr [\<lparr>em_level = ''info'', em_message = ''Incoming request'', em_entry = entry\<rparr>] \<and>
               level entry = ''info'' \<and> message entry = ''Incoming request''"
    using a v info_entry[of pf cfg "''Incoming request''"] unfolding logRequest_def
    by (simp only: if_False sum.case) blast
next
  assume a: "path req \<notin> set (excludePaths rc) \<and> logRequestBody rc \<and> truthy (body req) \<and>
    (\<forall>s. stringify pf (body req) \<noteq> Inr (Some s))"
  then obtain e where "truncateBody pf rc (body req) = Inl e"
    using truncateBody_cases(2)[of pf "body req" rc] by blast
  then show "\<exists>e. logRequest pf cfg rc req cid = Inl e"
    using a by (simp add: logRequest_def)
qed

text \<open>
  The scenario of the specification, with \<^verbatim>\<open>/health\<close> excluded: \<^verbatim>\<open>/health\<close> is not
  logged; \<^verbatim>\<open>/status\<close>, \<^verbatim>\<open>/health/live\<close> and \<^verbatim>\<open>/Health\<close> are.
\<close>

theorem logRequest_excluded_or_one_entry_witness:
  "logRequest node (loadLoggerConfig ''info'' False None) (loadRequestLoggingConfig\<lparr>excludePaths := [''/health'']\<rparr>)
     (sample_request ''/health'' JUndefined) JUndefined = Inr [] \<and>
   (case logRequest node (loadLoggerConfig ''info'' False None) (loadRequestLoggingConfig\<lparr>excludePaths := [''/health'']\<rparr>)
           (sample_request ''/status'' JUndefined) JUndefined of
      Inr ems \<Rightarrow> map (\<lambda>em. (em_level em, em_message em)) ems | Inl e \<Rightarrow> []) =
     [(''info'', ''Incoming request'')] \<and>
   (case logRequest node (loadLoggerConfig ''info'' False None) (loadRequestLoggingConfig\<lparr>excludePaths := [''/health'']\<rparr>)
           (sample_request ''/health/live'' (JStr ''ping'')) JUndefined of
      Inr ems \<Rightarrow> map (\<lambda>em. (em_level em, em_message em)) ems | Inl e \<Rightarrow> []) =
     [(''info'', ''Incoming request'')] \<and>
   (case logRequest node (loadLoggerConfig ''info'' False None) (loadRequestLoggingConfig\<lparr>excludePaths := [''/health'']\<rparr>)
           (sample_request ''/Health'' JUndefined) JUndefined of
      Inr ems \<Rightarrow> map (\<lambda>em. (em_level em, em_message em)) ems | Inl e \<Rightarrow> []) =
     [(''info'', ''Incoming request'')]"
proof -
  let ?cfg = "loadLoggerConfig ''info'' False None"
  let ?rc = "loadRequestLoggingConfig\<lparr>excludePaths := [''/health'']\<rparr>"
  note t = logRequest_excluded_or_one_entry[of _ ?rc node ?cfg JUndefined]
  have s: "stringify node (JStr ''ping'') = Inr (Some (CHR 0x22 # ''ping'' @ [CHR 0x22]))"
    by (simp add: node_def quote_def escape_char_def)
  have 1: "logRequest node ?cfg ?rc (sample_request ''/health'' JUndefined) JUndefined = Inr []"
    using t[of "sample_request ''/health'' JUndefined"] by (simp add: sample_request_def)
  have 2: "\<exists>entry. logRequest node ?cfg ?rc (sample_request ''/status'' JUndefined) JUndefined =
             Inr [\<lparr>em_level = ''info'', em_message = ''Incoming request'', em_entry = entry\<rparr>]"
    using t[of "sample_request ''/status'' JUndefined"] by (simp add: sample_request_def) blast
  have 3: "\<exists>entry. logRequest node ?cfg ?rc (sample_request ''/health/live'' (JStr ''ping'')) JUndefined =
             Inr [\<lparr>em_level = ''info'', em_message = ''Incoming request'', em_entry = entry\<rparr>]"
    using t[of "sample_request ''/health/live'' (JStr ''ping'')"] s by (simp add: sample_request_def) blast
  have 4: "\<exists>entry. logRequest node ?cfg ?rc (sample_request ''/Health'' JUndefined) JUndefined =
             Inr [\<lparr>em_level = ''info'', em_message = ''Incoming request'', em_entry = entry\<rparr>]"
    using t[of "sample_request ''/Health'' JUndefined"] by (simp add: sample_request_def) blast
  show ?thesis using 1 2 3 4 by auto
qed

subsection \<open>Responses\<close>

text \<open>
  Claim C6, as stated, fails: a response whose captured body \<^verbatim>\<open>JSON.stringify\<close>
  cannot serialize makes \<^verbatim>\<open>logResponse\<close> raise, and no entry is emitted.
\<close>

theorem logResponse_one_entry_counterexample:
  "logResponse node (loadLoggerConfig ''info'' False None) loadRequestLoggingConfig
     (sample_response (JObj [(''total'', JBigInt 5)])) None JUndefined = Inl TypeError"
  by (simp add: logResponse_def sample_response_def loadRequestLoggingConfig_def truncateBody_def node_def)

text \<open>
  Claim C6, amended. \<^verbatim>\<open>logResponse\<close> consults no path: its result does not depend on
  \<^verbatim>\<open>excludePaths\<close>. Whenever the captured body is not logged, is absent or has a
  serialization, it hands over exactly one entry, at level \<^verbatim>\<open>info\<close> with the message
  \<^verbatim>\<open>Outgoing response\<close>, whose response view holds the status code and all the
  headers of the response, unfiltered. When a captured body that is to be logged has
  no serialization, the call raises and hands over nothing.
\<close>

theorem logResponse_one_entry:
  "((\<not> logResponseBody rc \<or> \<not> truthy (bodyContent res) \<or>
     (\<exists>s. stringify pf (bodyContent res) = Inr (Some s))) \<longrightarrow>
      (\<exists>entry. logResponse pf cfg rc res start cid =
                 Inr [\<lparr>em_level = ''info'', em_message = ''Outgoing response'', em_entry = entry\<rparr>] \<and>
               level entry = ''info'' \<and> message entry = ''Outgoing response'' \<and>
               opt_member (response entry) ''statusCode'' = JNum (statusCode res) \<and>
               opt_member (response entry) ''headers'' = JObj (getHeaders res))) \<and>
   (logResponseBody rc \<and> truthy (bodyContent res) \<and>
    (\<forall>s. stringify pf (bodyContent res) \<noteq> Inr (Some s)) \<longrightarrow>
      (\<exists>e. logResponse pf cfg rc res start cid = Inl e)) \<and>
   logResponse pf cfg (rc\<lparr>excludePaths := xs\<rparr>) res start cid = logResponse pf cfg rc res start cid"
proof (intro conjI impI)
  assume a: "\<not> logResponseBody rc \<or> \<not> truthy (bodyContent res) \<or>
     (\<exists>s. stringify pf (bodyContent res) = Inr (Some s))"
  then obtain v where v: "(if logResponseBody rc \<and> truthy (bodyContent res)
              then truncateBody pf rc (bodyContent res) else Inr JUndefined) = Inr v"
    using truncateBody_cases(1)[of pf "bodyContent res" rc]
    by (cases "logResponseBody rc \<and> truthy (bodyContent res)") auto
  show "\<exists>entry. logResponse pf cfg rc res start cid =
                 Inr [\<lparr>em_level = ''info'', em_message = ''Outgoing response'', em_entry = entry\<rparr>] \<and>
               level entry = ''info'' \<and> message entry = ''Outgoing response'' \<and>
               opt_member (response entry) ''statusCode'' = JNum (statusCode res) \<and>
               opt_member (response entry) ''headers'' = JObj (getHeaders res)"
    unfolding logResponse_def v
    by (simp add: info_def createLogEntry_def get_prop_def)
next
  assume a: "logResponseBody rc \<and> truthy (bodyContent res) \<and>
    (\<forall>s. stringify pf (bodyContent res) \<noteq> Inr (Some s))"
  then obtain e where "truncateBody pf rc (bodyContent res) = Inl e"
    using truncateBody_cases(2)[of pf "bodyContent res" rc] by blast
  then show "\<exists>e. logResponse pf cfg rc res start cid = Inl e"
    using a by (simp add: logResponse_def)
next
  show "logResponse pf cfg (rc\<lparr>excludePaths := xs\<rparr>) res start cid = logResponse pf cfg rc res start cid"
    by (simp add: logResponse_def truncateBody_excludePaths split: sum.splits option.splits)
qed

text \<open>
  A response with a body that serializes, and with a start marker; and a response
  whose body holds a \<^verbatim>\<open>bigint\<close>.
\<close>

theorem logResponse_one_entry_witness:
  "(case logResponse node (loadLoggerConfig ''info'' False None) loadRequestLoggingConfig
           (sample_response (JStr ''ok'')) (Some (1, 500)) JUndefined of
      Inr ems \<Rightarrow> map (\<lambda>em. (em_level em, em_message em, opt_member (response (em_entry em)) ''headers'')) ems
    | Inl e \<Rightarrow> []) =
     [(''info'', ''Outgoing response'',
       JObj [(''content-type'', JStr ''application/json''), (''set-cookie'', JStr ''sid=1'')])] \<and>
   (\<exists>e. logResponse node (loadLoggerConfig ''info'' False None) loadRequestLoggingConfig
           (sample_response (JObj [(''total'', JBigInt 5)])) (Some (1, 500)) JUndefined = Inl e)"
proof -
  have s: "stringify node (JStr ''ok'') = Inr (Some (CHR 0x22 # ''ok'' @ [CHR 0x22]))"
    by (simp add: node_def quote_def escape_char_def)
  have "\<exists>entry. logResponse node (loadLoggerConfig ''info'' False None) loadRequestLoggingConfig
           (sample_response (JStr ''ok'')) (Some (1, 500)) JUndefined =
                 Inr [\<lparr>em_level = ''info'', em_message = ''Outgoing response'', em_entry = entry\<rparr>] \<and>
               opt_member (response entry) ''headers'' = JObj (getHeaders (sample_response (JStr ''ok'')))"
    using logResponse_one_entry[of loadRequestLoggingConfig "sample_response (JStr ''ok'')" node
            "loadLoggerConfig ''info'' False None" "Some (1, 500)" JUndefined] s
    by (simp add: sample_response_def) blast
  then have one: "(case logResponse node (loadLoggerConfig ''info'' False None) loadRequestLoggingConfig
           (sample_response (JStr ''ok'')) (Some (1, 500)) JUndefined of
      Inr ems \<Rightarrow> map (\<lambda>em. (em_level em, em_message em, opt_member (response (em_entry em)) ''headers'')) ems
    | Inl e \<Rightarrow> []) =
     [(''info'', ''Outgoing response'',
       JObj [(''content-type'', JStr ''application/json''), (''set-cookie'', JStr ''sid=1'')])]"
    by (auto simp: sample_response_def)
  have big: "\<forall>s. stringify node (JObj [(''total'', JBigInt 5)]) \<noteq> Inr (Some s)"
    by (simp add: node_def)
  have "\<exists>e. logResponse node (loadLoggerConfig ''info'' False None) loadRequestLoggingConfig
           (sample_response (JObj [(''total'', JBigInt 5)])) (Some (1, 500)) JUndefined = Inl e"
    using logResponse_one_entry[of loadRequestLoggingConfig "sample_response (JObj [(''total'', JBigInt 5)])"
            node "loadLoggerConfig ''info'' False None" "Some (1, 500)" JUndefined] big
    by (simp add: sample_response_def loadRequestLoggingConfig_def)
  then show ?thesis using one by blast
qed

subsection \<open>Captured request headers\<close>

lemma map_of_add_configured_headers_aux:
  "map_of (fold (\<lambda>header hs.
             let headerValue = get_prop hdrs header
             in if truthy headerValue then AList.update header headerValue hs else hs) xs acc) k =
     (if k \<in> set xs \<and> truthy (get_prop hdrs k) then Some (get_prop hdrs k) else map_of acc k)"
  by (induction xs arbitrary: acc) (auto simp: Let_def update_conv')

lemma map_of_add_configured_headers:
  "map_of (add_configured_headers rc req) k =
     (if k \<in> set (includedHeaders rc) \<and> truthy (get_prop (headers req) k)
      then Some (get_prop (headers req) k) else None)"
  by (simp add: add_configured_headers_def map_of_add_configured_headers_aux)

text \<open>
  Claim C9, as stated, fails: a header that is in \<^verbatim>\<open>includedHeaders\<close> and present on
  the request with the empty string as its value (here \<^verbatim>\<open>referer\<close>) is left out of
  the view, because the code keeps a header only when its value is truthy.
\<close>

theorem logRequest_headers_counterexample:
  "''referer'' \<in> set (includedHeaders loadRequestLoggingConfig) \<and>
   map_of (headers (sample_request ''/orders'' JUndefined)) ''referer'' = Some (JStr []) \<and>
   path (sample_request ''/orders'' JUndefined) \<notin> set (excludePaths loadRequestLoggingConfig) \<and>
   logRequest node (loadLoggerConfig ''info'' False None) loadRequestLoggingConfig
       (sample_request ''/orders'' JUndefined) JUndefined =
     Inr [\<lparr>em_level = ''info'', em_message = ''Incoming request'',
           em_entry =
             \<lparr>timestamp = ''2024-01-01T00:00:00.000Z'', level = ''info'',
              message = ''Incoming request'',
              correlationId = JUndefined, service = JUndefined, error = JUndefined,
              request = JObj [(''method'', JStr ''POST''), (''url'', JStr ''/orders''),
                              (''headers'', JObj [(''host'', JStr ''api.example.com'')]),
                              (''body'', JUndefined), (''params'', JObj []), (''query'', JObj [])],
              response = JUndefined, user = JUndefined, metadata = JUndefined,
              context_block = JObj [(''hostname'', JStr ''localhost''), (''pid'', JNum 4242),
                                    (''memory'', JObj [(''heapUsed'', JNum 10000000),
                                                       (''heapTotal'', JNum 20000001)])]\<rparr>\<rparr>]"
  by (simp add: logRequest_def sample_request_def loadRequestLoggingConfig_def loadLoggerConfig_def
        info_def createLogEntry_def add_configured_headers_def get_prop_def node_def)

text \<open>
  Claim C9, amended. For every request that is not excluded and that
  \<^verbatim>\<open>logRequest\<close> logs, the headers map of the captured request view holds exactly
  the header names that are in \<^verbatim>\<open>includedHeaders\<close> and have a truthy (so: non-empty)
  value on the request, each with that value; a listed header that is missing or
  empty is left out, and no header outside the list appears.
\<close>

theorem logRequest_headers_view:
  assumes "path req \<notin> set (excludePaths rc)" and "logRequest pf cfg rc req cid = Inr ems"
  shows "\<exists>entry hs.
           ems = [\<lparr>em_level = ''info'', em_message = ''Incoming request'', em_entry = entry\<rparr>] \<and>
           opt_member (request entry) ''headers'' = JObj hs \<and>
           (\<forall>k. map_of hs k =
              (if k \<in> set (includedHeaders rc) \<and> truthy (get_prop (headers req) k)
               then Some (get_prop (headers req) k) else None))"
proof -
  obtain b where b: "(if logRequestBody rc \<and> truthy (body req)
              then truncateBody pf rc (body req) else Inr JUndefined) = Inr b"
    using assms by (auto simp: logRequest_def split: sum.splits)
  have "ems = info pf cfg ''Incoming request''
              (JObj
                [(''request'', JObj
                   [(''method'', JStr (http_method req)),
                    (''url'', JStr (url req)),
                    (''headers'', JObj (add_configured_headers rc req)),
                    (''body'', b),
                    (''params'',
                       if logRouteParams rc \<and> truthy (params req) then params req else JUndefined),
                    (''query'',
                       if logQueryParams rc \<and> truthy (query req) then query req else JUndefined)]),
                 (''correlationId'', cid)])"
    using assms unfolding logRequest_def b by simp
  then show ?thesis
    using map_of_add_configured_headers[of rc req]
    by (simp add: info_def createLogEntry_def get_prop_def)
qed

text \<open>
  A request with the headers \<^verbatim>\<open>host\<close>, \<^verbatim>\<open>referer\<close> (empty) and \<^verbatim>\<open>cookie\<close>, under
  the list \<^verbatim>\<open>user-agent\<close>, \<^verbatim>\<open>host\<close>, \<^verbatim>\<open>referer\<close>.
\<close>

theorem logRequest_headers_view_witness:
  "path (sample_request ''/orders'' JUndefined) \<notin> set (excludePaths loadRequestLoggingConfig) \<and>
   (\<exists>entry hs. logRequest node (loadLoggerConfig ''info'' False None) loadRequestLoggingConfig
           (sample_request ''/orders'' JUndefined) JUndefined =
           Inr [\<lparr>em_level = ''info'', em_message = ''Incoming request'', em_entry = entry\<rparr>] \<and>
      opt_member (request entry) ''headers'' = JObj hs \<and>
      map_of hs ''host'' = Some (JStr ''api.example.com'') \<and>
      map_of hs ''user-agent'' = None \<and>
      map_of hs ''cookie'' = None)"
proof -
  let ?req = "sample_request ''/orders'' JUndefined"
  have p: "path ?req \<notin> set (excludePaths loadRequestLoggingConfig)"
    by (simp add: sample_request_def loadRequestLoggingConfig_def)
  obtain ems where ems: "logRequest node (loadLoggerConfig ''info'' False None) loadRequestLoggingConfig
           ?req JUndefined = Inr ems"
    by (simp add: logRequest_def sample_request_def loadRequestLoggingConfig_def)
  from logRequest_headers_view[OF p ems] obtain entry hs where
    h: "ems = [\<lparr>em_level = ''info'', em_message = ''Incoming request'', em_entry = entry\<rparr>]"
       "opt_member (request entry) ''headers'' = JObj hs"
       "\<And>k. map_of hs k =
              (if k \<in> set (includedHeaders loadRequestLoggingConfig) \<and> truthy (get_prop (headers ?req) k)
               then Some (get_prop (headers ?req) k) else None)"
    by blast
  have "map_of hs ''host'' = Some (JStr ''api.example.com'')" "map_of hs ''user-agent'' = None"
       "map_of hs ''cookie'' = None"
    by (simp_all add: h(3) sample_request_def loadRequestLoggingConfig_def get_prop_def)
  then show ?thesis using p ems h(1,2) by blast
qed

section \<open>Properties of the transport fan-out\<close>







section \<open>Properties of the redaction engine\<close>

subsection \<open>The stores that a call relates\<close>

lemma redacted_refl: "redacted names {} st st"
  by (simp add: redacted_def)

lemma redacted_trans:
  assumes "redacted names X st st1" and "redacted names Y st1 st2"
  shows "redacted names (X \<union> Y) st st2"
  using assms unfolding redacted_def by auto

lemma redacted_weaken:
  assumes "redacted names X st st'"
    and "\<And>a k. k \<in> set (keys st a) \<Longrightarrow> toLowerCase k \<in> set names \<Longrightarrow> (a, k) \<in> X \<longleftrightarrow> (a, k) \<in> Y"
  shows "redacted names Y st st'"
  using assms unfolding redacted_def by auto

lemma kids_cong_load:
  assumes "\<And>key. toLowerCase key \<notin> set names \<Longrightarrow> load st' a key = load st a key"
  shows "kids names st' a ks = kids names st a ks"
  unfolding kids_def using assms by (intro arg_cong[where f = concat] map_cong) auto

lemma visited_cong_load:
  assumes "\<And>a. keys st' a = keys st a"
    and "\<And>a key. toLowerCase key \<notin> set names \<Longrightarrow> load st' a key = load st a key"
  shows "visited names st' n a = visited names st n a"
proof (induction n arbitrary: a)
  case 0
  then show ?case by simp
next
  case (Suc n)
  have "children names st' a = children names st a"
    unfolding children_def assms(1) by (rule kids_cong_load) (rule assms(2))
  then show ?case by (simp add: Suc.IH)
qed

lemma redacted_kids:
  assumes "redacted names X st st'"
  shows "kids names st' a ks = kids names st a ks"
  using assms by (intro kids_cong_load) (simp add: redacted_def)

lemma redacted_visited:
  assumes "redacted names X st st'"
  shows "visited names st' n a = visited names st n a"
  using assms by (intro visited_cong_load) (simp_all add: redacted_def)

lemma keys_assign:
  assumes "k \<in> set (keys st a)"
  shows "keys (assign st a k v) b = keys st b"
proof -
  have *: "map fst (AList.update k v al) = map fst al" if "k \<in> fst ` set al" for al :: object
    using that by (induction al) auto
  show ?thesis
    using assms * by (auto simp: keys_def assign_def nth_list_update)
qed

lemma load_assign:
  "load (assign st a k v) b k' = (if b = a \<and> k' = k \<and> a < length st then v else load st b k')"
  by (auto simp: load_def assign_def nth_list_update update_conv')

lemma redacted_assign:
  assumes "k \<in> set (keys st a)" and "toLowerCase k \<in> set names"
  shows "redacted names {(a, k)} st (assign st a k (VStr ''[REDACTED]''))"
proof -
  have "a < length st" using assms(1) by (auto simp: keys_def split: if_splits)
  moreover have "length (assign st a k (VStr ''[REDACTED]'')) = length st"
    by (simp add: assign_def)
  ultimately show ?thesis
    using assms unfolding redacted_def
    by (auto simp: keys_assign load_assign)
qed

lemma redact_loop:
  assumes step: "\<And>b st. redacted names (visited names st n b \<times> UNIV) st
                   (redactSensitiveData (VRef b) names (Suc d) st)"
  shows "set ks \<subseteq> set (keys st0 r) \<Longrightarrow> redacted names X st0 st \<Longrightarrow>
     redacted names
       (X \<union> {r} \<times> set ks \<union> (\<Union>b \<in> set (kids names st0 r ks). visited names st0 n b) \<times> UNIV)
       st0
       (fold (\<lambda>key st'.
                 if toLowerCase key \<in> set names
                 then assign st' r key (VStr ''[REDACTED]'')
                 else if typeof (load st' r key) = ''object''
                 then redactSensitiveData (load st' r key) names (d + 1) st'
                 else st') ks st)"
proof (induction ks arbitrary: st X)
  case Nil
  then show ?case by (simp add: kids_def)
next
  case (Cons k ks)
  let ?step = "\<lambda>key st'.
                 if toLowerCase key \<in> set names
                 then assign st' r key (VStr ''[REDACTED]'')
                 else if typeof (load st' r key) = ''object''
                 then redactSensitiveData (load st' r key) names (d + 1) st'
                 else st'"
  let ?K = "\<lambda>ks. (\<Union>b \<in> set (kids names st0 r ks). visited names st0 n b) \<times> (UNIV :: string set)"
  have k_in: "k \<in> set (keys st r)"
    using Cons.prems unfolding redacted_def by simp
  have sub: "set ks \<subseteq> set (keys st0 r)" using Cons.prems by simp
  obtain Y where Y: "redacted names (X \<union> Y) st0 (?step k st)"
    and Yeq: "Y \<union> {r} \<times> set ks \<union> ?K ks = {r} \<times> set (k # ks) \<union> ?K (k # ks)
              \<or> (toLowerCase k \<notin> set names \<and> Y \<union> ?K ks = ?K (k # ks))"
  proof (cases "toLowerCase k \<in> set names")
    case True
    have "redacted names {(r, k)} st (?step k st)"
      using redacted_assign[OF k_in True] True by simp
    then have "redacted names (X \<union> {(r, k)}) st0 (?step k st)"
      using redacted_trans[OF Cons.prems(2)] by blast
    moreover have "{(r, k)} \<union> {r} \<times> set ks \<union> ?K ks = {r} \<times> set (k # ks) \<union> ?K (k # ks)"
      using True by (auto simp: kids_def)
    ultimately show ?thesis using that by blast
  next
    case False
    have same: "load st r k = load st0 r k"
      using Cons.prems(2) False unfolding redacted_def by simp
    show ?thesis
    proof (cases "load st0 r k")
      case (VRef b)
      have "redacted names (visited names st n b \<times> UNIV) st (?step k st)"
        using step[of st b] False same VRef by simp
      then have "redacted names (visited names st0 n b \<times> UNIV) st (?step k st)"
        by (simp add: redacted_visited[OF Cons.prems(2)])
      then have "redacted names (X \<union> visited names st0 n b \<times> UNIV) st0 (?step k st)"
        using redacted_trans[OF Cons.prems(2)] by blast
      moreover have "visited names st0 n b \<times> UNIV \<union> ?K ks = ?K (k # ks)"
        using False VRef by (auto simp: kids_def)
      ultimately show ?thesis using that False by blast
    next
      case VNull
      have "?step k st = st"
        using False same VNull by (simp add: redactSensitiveData.simps)
      then have "redacted names (X \<union> {}) st0 (?step k st)"
        using Cons.prems(2) by simp
      moreover have "{} \<union> ?K ks = ?K (k # ks)"
        using False VNull by (auto simp: kids_def)
      ultimately show ?thesis using that False by blast
    qed (use False same Cons.prems(2) that[of "{}"] in \<open>auto simp: kids_def\<close>)
  qed
  have "redacted names (X \<union> Y \<union> {r} \<times> set ks \<union> ?K ks) st0 (fold ?step ks (?step k st))"
    using Cons.IH[OF sub Y] .
  then have "redacted names (X \<union> {r} \<times> set (k # ks) \<union> ?K (k # ks)) st0 (fold ?step ks (?step k st))"
  proof (rule redacted_weaken)
    fix a k'
    assume "k' \<in> set (keys st0 a)" "toLowerCase k' \<in> set names"
    then show "((a, k') \<in> X \<union> Y \<union> {r} \<times> set ks \<union> ?K ks) =
               ((a, k') \<in> X \<union> {r} \<times> set (k # ks) \<union> ?K (k # ks))"
      using Yeq by auto
  qed
  then show ?case by simp
qed

lemma redact_visited:
  "redacted names (visited names st (11 - d) r \<times> UNIV) st
     (redactSensitiveData (VRef r) names d st)"
proof (induction "11 - d" arbitrary: d st r)
  case 0
  then show ?case by (simp add: redactSensitiveData.simps redacted_refl)
next
  case (Suc n)
  then have d: "d \<le> 10" and n: "n = 11 - Suc d" by arith+
  have step: "\<And>b st. redacted names (visited names st n b \<times> UNIV) st
                   (redactSensitiveData (VRef b) names (Suc d) st)"
    using Suc.hyps(1)[OF n] n by simp
  have "redacted names
       ({} \<union> {r} \<times> set (keys st r) \<union> (\<Union>b \<in> set (kids names st r (keys st r)). visited names st n b) \<times> UNIV)
       st (redactSensitiveData (VRef r) names d st)"
    using redact_loop[OF step, of "keys st r" st r "{}" st] d
    by (simp add: redactSensitiveData.simps[of "VRef r"] redacted_refl)
  then show ?case
  proof (rule redacted_weaken)
    fix a k
    assume "k \<in> set (keys st a)" "toLowerCase k \<in> set names"
    then show "((a, k) \<in> {} \<union> {r} \<times> set (keys st r) \<union>
            (\<Union>b \<in> set (kids names st r (keys st r)). visited names st n b) \<times> UNIV) =
           ((a, k) \<in> visited names st (11 - d) r \<times> UNIV)"
      using Suc.hyps(2)[symmetric] by (auto simp: children_def)
  qed
qed


lemma lower_case_names_matches_ci:
  assumes "map toLowerCase names = names"
  shows "matches_ci names key \<longleftrightarrow> toLowerCase key \<in> set names"
proof -
  have "toLowerCase ` set names = set names"
    using assms by (metis set_map)
  then show ?thesis by (simp add: matches_ci_def)
qed






lemma built_names:
  "redactedFields (loadLoggerConfig l d f) = [''password'', ''token'', ''secret'', ''authorization'']"
  by (simp add: loadLoggerConfig_def)

lemma built_names_lower_case:
  "map toLowerCase (redactedFields (loadLoggerConfig l d f)) = redactedFields (loadLoggerConfig l d f)"
  by (simp add: loadLoggerConfig_def toLowerCase_def lower_char_def)



lemmas store_eval = keys_def load_def assign_def toLowerCase_def lower_char_def children_def kids_def

subsection \<open>Depth-bounded redaction\<close>



subsection \<open>Replaced values are not entered\<close>

text \<open>
  Claim C10. The names are in lower case, as configured. When a key of an object that
  the engine comes to matches a name in any letter case, the value of the key is
  replaced by \<^verbatim>\<open>[REDACTED]\<close> whatever it is, an object included, and the engine does
  not go into it: the store that the call leaves is the same for every value the key
  could hold. A property changes only when its key matches a name and its object is
  reached from the given object by steps of \<open>children\<close>, which (last conjunct) go
  through the keys that match no name and hold an object.
\<close>

theorem redaction_replaces_wholesale:
  assumes "map toLowerCase names = names"
    and "a \<in> visited names st (11 - depth) r" and "k \<in> set (keys st a)" and "matches_ci names k"
  shows "load (redactSensitiveData (VRef r) names depth st) a k = VStr ''[REDACTED]'' \<and>
         (\<forall>v b k'. load (redactSensitiveData (VRef r) names depth (assign st a k v)) b k' =
                    load (redactSensitiveData (VRef r) names depth st) b k') \<and>
         (\<forall>b k'. load (redactSensitiveData (VRef r) names depth st) b k' \<noteq> load st b k' \<longrightarrow>
                    matches_ci names k' \<and> b \<in> visited names st (11 - depth) r) \<and>
         (\<forall>b c. c \<in> set (children names st b) \<longleftrightarrow>
                    (\<exists>key \<in> set (keys st b). \<not> matches_ci names key \<and> load st b key = VRef c))"
proof -
  note m = lower_case_names_matches_ci[OF assms(1)]
  have km: "toLowerCase k \<in> set names" using assms(4) m by simp
  note c = redact_visited[of names _ depth r, unfolded redacted_def]
  have 1: "load (redactSensitiveData (VRef r) names depth st) a k = VStr ''[REDACTED]''"
    using c[of st] assms(2,3) km by simp
  have 2: "load (redactSensitiveData (VRef r) names depth (assign st a k v)) b k' =
           load (redactSensitiveData (VRef r) names depth st) b k'" for v b k'
  proof -
    let ?st2 = "assign st a k v"
    have ks: "keys ?st2 x = keys st x" for x
      by (rule keys_assign[OF assms(3)])
    have vis: "visited names ?st2 (11 - depth) r = visited names st (11 - depth) r"
      using km by (intro visited_cong_load) (auto simp: ks load_assign)
    show ?thesis
      using c[of ?st2] c[of st] assms(2,3) km
      by (auto simp: vis ks load_assign)
  qed
  have 3: "matches_ci names k' \<and> b \<in> visited names st (11 - depth) r"
    if "load (redactSensitiveData (VRef r) names depth st) b k' \<noteq> load st b k'" for b k'
    using c[of st] that by (auto simp: m split: if_splits)
  have 4: "c \<in> set (children names st b) \<longleftrightarrow>
             (\<exists>key \<in> set (keys st b). \<not> matches_ci names key \<and> load st b key = VRef c)" for b c
    by (force simp: children_def kids_def m split: if_splits val.splits)
  show ?thesis using 1 2 3 4 by blast
qed

text \<open>
  In the scenario store the key \<^verbatim>\<open>Token\<close> of the root holds an object with a
  password: the key is replaced, the object it held is left as it was, and the result
  is the same when the key holds a string instead.
\<close>

theorem redaction_replaces_wholesale_witness:
  "map toLowerCase (redactedFields (loadLoggerConfig ''info'' False None)) =
     redactedFields (loadLoggerConfig ''info'' False None) \<and>
   0 \<in> visited (redactedFields (loadLoggerConfig ''info'' False None)) scenario_store (11 - 0) 0 \<and>
   ''Token'' \<in> set (keys scenario_store 0) \<and>
   matches_ci (redactedFields (loadLoggerConfig ''info'' False None)) ''Token'' \<and>
   load scenario_store 0 ''Token'' = VRef 2 \<and>
   load (redactSensitiveData (VRef 0) (redactedFields (loadLoggerConfig ''info'' False None)) 0 scenario_store)
     0 ''Token'' = VStr ''[REDACTED]'' \<and>
   redactSensitiveData (VRef 0) (redactedFields (loadLoggerConfig ''info'' False None)) 0 scenario_store =
     [[(''user'', VRef 1), (''Token'', VStr ''[REDACTED]'')],
      [(''name'', VStr ''a''), (''password'', VStr ''[REDACTED]'')],
      [(''password'', VStr ''inner'')]] \<and>
   redactSensitiveData (VRef 0) (redactedFields (loadLoggerConfig ''info'' False None)) 0
       (assign scenario_store 0 ''Token'' (VStr ''abc'')) =
     [[(''user'', VRef 1), (''Token'', VStr ''[REDACTED]'')],
      [(''name'', VStr ''a''), (''password'', VStr ''[REDACTED]'')],
      [(''password'', VStr ''inner'')]]"
proof -
  let ?names = "redactedFields (loadLoggerConfig ''info'' False None)"
  note lc = built_names_lower_case[of "''info''" False None]
  have e: "(11::nat) - 0 = Suc 10" by simp
  have v: "0 \<in> visited ?names scenario_store (11 - 0) 0"
    by (simp only: e visited.simps insertI1)
  have k: "''Token'' \<in> set (keys scenario_store 0)"
    by (simp add: keys_def scenario_store_def)
  have m: "matches_ci ?names ''Token''"
    by (simp add: matches_ci_def built_names toLowerCase_def lower_char_def)
  have r: "load (redactSensitiveData (VRef 0) ?names 0 scenario_store) 0 ''Token'' = VStr ''[REDACTED]''"
    using redaction_replaces_wholesale[OF lc v k m] by blast
  have sc: "redactSensitiveData (VRef 0) ?names 0 scenario_store =
     [[(''user'', VRef 1), (''Token'', VStr ''[REDACTED]'')],
      [(''name'', VStr ''a''), (''password'', VStr ''[REDACTED]'')],
      [(''password'', VStr ''inner'')]]"
    by (simp add: built_names redactSensitiveData.simps store_eval scenario_store_def)
  have sc2: "redactSensitiveData (VRef 0) ?names 0 (assign scenario_store 0 ''Token'' (VStr ''abc'')) =
     [[(''user'', VRef 1), (''Token'', VStr ''[REDACTED]'')],
      [(''name'', VStr ''a''), (''password'', VStr ''[REDACTED]'')],
      [(''password'', VStr ''inner'')]]"
    by (simp add: built_names redactSensitiveData.simps store_eval scenario_store_def)
  have l: "load scenario_store 0 ''Token'' = VRef 2"
    by (simp add: load_def scenario_store_def)
  show ?thesis using lc v k m l r sc sc2 by blast
qed

end
